theory Spec2Isabelle
  imports Main "HOL-Library.Word" "HOL-Library.Signed_Division"
begin

text \<open>
  The sketch \<^verbatim>\<open>MQTT_LED_Clock.ino\<close> shows the time on a strip of 86 LEDs laid out as four
  seven-segment digits and a separator, and takes a colour and a brightness from two MQTT
  topics. This theory models its digit renderer, its clock compositor, its message handler and
  its main loop, and proves the properties C1 to C10 of its specification about them. The
  repository has a second variant of the sketch with a configuration portal; its
  \<^verbatim>\<open>displayTheTime\<close>, \<^verbatim>\<open>displayNumber\<close>, digit functions and \<^verbatim>\<open>mqttCallback\<close>
  are the same text, while its \<^verbatim>\<open>loop()\<close> makes the message-bus check without looking
  at the link first.
\<close>

section \<open>The LED strip driver, at its interface\<close>

text \<open>
  The sketch drives an \<^verbatim>\<open>Adafruit_NeoPixel\<close> object \<^verbatim>\<open>stripClock\<close> of
  \<^verbatim>\<open>LEDCLOCK_COUNT = 86\<close> pixels. The driver is a vendor library; the sketch only calls
  \<^verbatim>\<open>begin\<close>, \<^verbatim>\<open>show\<close>, \<^verbatim>\<open>clear\<close>, \<^verbatim>\<open>setBrightness\<close> and
  \<^verbatim>\<open>fill\<close>. Every function of the sketch is modelled by the list of collaborator calls
  it makes, in program order; the driver is an interpreter of those calls on a pixel buffer.
  A pixel of the buffer holds the 32-bit colour last passed for it (0 after \<^verbatim>\<open>clear\<close>);
  the scaling of the stored bytes by the brightness level is internal to the driver and is not
  modelled. Serial output and delays are left out.
\<close>

type_synonym colour = "32 word"

datatype call =
    StripBegin
  | StripShow
  | StripClear
  | StripSetBrightness int
  | StripFill colour int int
  | ConfigTzTime

definition LEDCLOCK_COUNT :: nat where
  "LEDCLOCK_COUNT = 86"

record strip =
  pixels :: "colour list"
  shown :: "colour list"
  level :: nat

text \<open>An \<^verbatim>\<open>int\<close> argument passed for a \<^verbatim>\<open>uint16_t\<close> or \<^verbatim>\<open>uint8_t\<close>
  parameter is reduced modulo the width of the parameter.\<close>

definition uint16 :: "int \<Rightarrow> nat" where
  "uint16 v = nat (v mod 65536)"

definition uint8 :: "int \<Rightarrow> nat" where
  "uint8 v = nat (v mod 256)"

text \<open>\<^verbatim>\<open>setPixelColor(n, c)\<close> writes pixel \<open>n\<close> when \<open>n < numLEDs\<close> and does nothing
  otherwise.\<close>

definition setPixelColor :: "nat \<Rightarrow> colour \<Rightarrow> colour list \<Rightarrow> colour list" where
  "setPixelColor n c px = (if n < length px then px[n := c] else px)"

text \<open>
  \<^verbatim>\<open>fill(c, first, count)\<close>: nothing when \<open>first \<ge> numLEDs\<close>; otherwise the index one
  past the last pixel is \<open>numLEDs\<close> when \<open>count = 0\<close> and \<open>first + count\<close> (a
  \<^verbatim>\<open>uint16_t\<close>), capped at \<open>numLEDs\<close>, otherwise; then
  \<^verbatim>\<open>for (i = first; i < end; i++) setPixelColor(i, c)\<close>.
\<close>

definition fill_end :: "nat \<Rightarrow> nat \<Rightarrow> nat \<Rightarrow> nat" where
  "fill_end numLEDs first count =
     (if count = 0 then numLEDs else min ((first + count) mod 65536) numLEDs)"

definition fill_indices :: "nat \<Rightarrow> nat \<Rightarrow> nat \<Rightarrow> nat list" where
  "fill_indices numLEDs first count =
     (if first \<ge> numLEDs then [] else [first ..< fill_end numLEDs first count])"

definition fill :: "colour \<Rightarrow> nat \<Rightarrow> nat \<Rightarrow> colour list \<Rightarrow> colour list" where
  "fill c first count px =
     fold (\<lambda>i. setPixelColor i c) (fill_indices (length px) first count) px"

fun exec :: "call \<Rightarrow> strip \<Rightarrow> strip" where
  "exec StripBegin st = st"
| "exec StripShow st = st\<lparr>shown := pixels st\<rparr>"
| "exec StripClear st = st\<lparr>pixels := replicate (length (pixels st)) 0\<rparr>"
| "exec (StripSetBrightness b) st = st\<lparr>level := uint8 b\<rparr>"
| "exec (StripFill c first count) st =
     st\<lparr>pixels := fill c (uint16 first) (uint16 count) (pixels st)\<rparr>"
| "exec ConfigTzTime st = st"

definition run :: "call list \<Rightarrow> strip \<Rightarrow> strip" where
  "run cs st = fold exec cs st"

text \<open>The pixel indices a call list writes on a strip of \<open>n\<close> pixels: for every
  \<^verbatim>\<open>fill\<close>, the indices its loop passes to \<^verbatim>\<open>setPixelColor\<close>.\<close>

fun call_writes :: "nat \<Rightarrow> call \<Rightarrow> nat list" where
  "call_writes n (StripFill c first count) = fill_indices n (uint16 first) (uint16 count)"
| "call_writes n _ = []"

definition writes :: "nat \<Rightarrow> call list \<Rightarrow> nat list" where
  "writes n cs = concat (map (call_writes n) cs)"

text \<open>The index range a \<^verbatim>\<open>fill\<close> call asks for, before the driver's capping.\<close>

fun call_request :: "call \<Rightarrow> int set" where
  "call_request (StripFill c first count) = {first ..< first + count}"
| "call_request _ = {}"

definition requests :: "call list \<Rightarrow> int set" where
  "requests cs = (\<Union>k \<in> set cs. call_request k)"

text \<open>A \<^verbatim>\<open>fill\<close> call whose whole range lies on a strip of \<open>n\<close> pixels.\<close>

fun on_strip :: "nat \<Rightarrow> call \<Rightarrow> bool" where
  "on_strip n (StripFill c first count) = (0 \<le> first \<and> 0 < count \<and> first + count \<le> int n)"
| "on_strip n _ = True"

section \<open>The digit renderer of the sketch\<close>




definition digitZero :: "int \<Rightarrow> colour \<Rightarrow> call list" where
  "digitZero offsetBy colourToUse =
     [StripFill colourToUse offsetBy 3,
      StripFill colourToUse (offsetBy + 3) 3,
      StripFill colourToUse (offsetBy + 6) 3,
      StripFill colourToUse (offsetBy + 9) 3,
      StripFill colourToUse (offsetBy + 12) 3,
      StripFill colourToUse (offsetBy + 15) 3]"

definition digitOne :: "int \<Rightarrow> colour \<Rightarrow> call list" where
  "digitOne offsetBy colourToUse =
     [StripFill colourToUse offsetBy 3,
      StripFill colourToUse (offsetBy + 15) 3]"

definition digitTwo :: "int \<Rightarrow> colour \<Rightarrow> call list" where
  "digitTwo offsetBy colourToUse =
     [StripFill colourToUse (offsetBy + 3) 3,
      StripFill colourToUse (offsetBy + 6) 3,
      StripFill colourToUse (offsetBy + 12) 3,
      StripFill colourToUse (offsetBy + 15) 3,
      StripFill colourToUse (offsetBy + 18) 3]"

definition digitThree :: "int \<Rightarrow> colour \<Rightarrow> call list" where
  "digitThree offsetBy colourToUse =
     [StripFill colourToUse offsetBy 3,
      StripFill colourToUse (offsetBy + 3) 3,
      StripFill colourToUse (offsetBy + 12) 3,
      StripFill colourToUse (offsetBy + 15) 3,
      StripFill colourToUse (offsetBy + 18) 3]"

definition digitFour :: "int \<Rightarrow> colour \<Rightarrow> call list" where
  "digitFour offsetBy colourToUse =
     [StripFill colourToUse offsetBy 3,
      StripFill colourToUse (offsetBy + 9) 3,
      StripFill colourToUse (offsetBy + 15) 3,
      StripFill colourToUse (offsetBy + 18) 3]"

definition digitFive :: "int \<Rightarrow> colour \<Rightarrow> call list" where
  "digitFive offsetBy colourToUse =
     [StripFill colourToUse offsetBy 3,
      StripFill colourToUse (offsetBy + 3) 3,
      StripFill colourToUse (offsetBy + 9) 3,
      StripFill colourToUse (offsetBy + 12) 3,
      StripFill colourToUse (offsetBy + 18) 3]"

definition digitSix :: "int \<Rightarrow> colour \<Rightarrow> call list" where
  "digitSix offsetBy colourToUse =
     [StripFill colourToUse offsetBy 3,
      StripFill colourToUse (offsetBy + 3) 3,
      StripFill colourToUse (offsetBy + 6) 3,
      StripFill colourToUse (offsetBy + 9) 3,
      StripFill colourToUse (offsetBy + 12) 3,
      StripFill colourToUse (offsetBy + 18) 3]"

definition digitSeven :: "int \<Rightarrow> colour \<Rightarrow> call list" where
  "digitSeven offsetBy colourToUse =
     [StripFill colourToUse offsetBy 3,
      StripFill colourToUse (offsetBy + 12) 3,
      StripFill colourToUse (offsetBy + 15) 3]"

definition digitEight :: "int \<Rightarrow> colour \<Rightarrow> call list" where
  "digitEight offsetBy colourToUse =
     [StripFill colourToUse offsetBy 3,
      StripFill colourToUse (offsetBy + 3) 3,
      StripFill colourToUse (offsetBy + 6) 3,
      StripFill colourToUse (offsetBy + 9) 3,
      StripFill colourToUse (offsetBy + 12) 3,
      StripFill colourToUse (offsetBy + 15) 3,
      StripFill colourToUse (offsetBy + 18) 3]"

definition digitNine :: "int \<Rightarrow> colour \<Rightarrow> call list" where
  "digitNine offsetBy colourToUse =
     [StripFill colourToUse offsetBy 3,
      StripFill colourToUse (offsetBy + 9) 3,
      StripFill colourToUse (offsetBy + 12) 3,
      StripFill colourToUse (offsetBy + 15) 3,
      StripFill colourToUse (offsetBy + 18) 3]"

text \<open>The \<^verbatim>\<open>switch\<close> of \<^verbatim>\<open>displayNumber\<close>; its \<^verbatim>\<open>default\<close> branch makes no
  call.\<close>

definition displayNumber :: "int \<Rightarrow> int \<Rightarrow> colour \<Rightarrow> call list" where
  "displayNumber digitToDisplay offsetBy colourToUse =
     (if digitToDisplay = 0 then digitZero offsetBy colourToUse
      else if digitToDisplay = 1 then digitOne offsetBy colourToUse
      else if digitToDisplay = 2 then digitTwo offsetBy colourToUse
      else if digitToDisplay = 3 then digitThree offsetBy colourToUse
      else if digitToDisplay = 4 then digitFour offsetBy colourToUse
      else if digitToDisplay = 5 then digitFive offsetBy colourToUse
      else if digitToDisplay = 6 then digitSix offsetBy colourToUse
      else if digitToDisplay = 7 then digitSeven offsetBy colourToUse
      else if digitToDisplay = 8 then digitEight offsetBy colourToUse
      else if digitToDisplay = 9 then digitNine offsetBy colourToUse
      else [])"

section \<open>The clock compositor of the sketch\<close>

text \<open>
  \<^verbatim>\<open>currentMinute % 10\<close>, \<^verbatim>\<open>floor(currentMinute / 10)\<close>, \<^verbatim>\<open>currentHour / 10\<close> and
  \<^verbatim>\<open>currentHour % 10\<close> are C integer operations, which truncate towards zero
  (\<open>sdiv\<close>, \<open>smod\<close>); the \<^verbatim>\<open>floor\<close> of an integer quotient is that quotient.
\<close>

definition displayTheTime :: "int \<Rightarrow> int \<Rightarrow> colour \<Rightarrow> call list" where
  "displayTheTime currentHour currentMinute currentColor =
     [StripClear]
     @ displayNumber (currentMinute smod 10) 0 currentColor
     @ displayNumber (currentMinute sdiv 10) 21 currentColor
     @ [StripFill currentColor 42 1, StripFill currentColor 43 1]
     @ (if currentHour > 9
        then displayNumber (currentHour sdiv 10) 65 currentColor
             @ displayNumber (currentHour smod 10) 44 currentColor
        else displayNumber currentHour 44 currentColor)
     @ [StripShow]"

section \<open>The segment geometry and the digit table of the specification\<close>

datatype segment = LowerRight | Bottom | LowerLeft | UpperLeft | Top | UpperRight | Middle

fun segmentOffsets :: "segment \<Rightarrow> int" where
  "segmentOffsets LowerRight = 0"
| "segmentOffsets Bottom = 3"
| "segmentOffsets LowerLeft = 6"
| "segmentOffsets UpperLeft = 9"
| "segmentOffsets Top = 12"
| "segmentOffsets UpperRight = 15"
| "segmentOffsets Middle = 18"

text \<open>The digit table of section 4.2 of the specification, row by row.\<close>

definition spec_segments :: "int \<Rightarrow> segment list" where
  "spec_segments d =
     (if d = 0 then [LowerRight, Bottom, LowerLeft, UpperLeft, Top, UpperRight]
      else if d = 1 then [LowerRight, UpperRight]
      else if d = 2 then [Bottom, LowerLeft, Top, UpperRight, Middle]
      else if d = 3 then [LowerRight, Bottom, Top, UpperRight, Middle]
      else if d = 4 then [LowerRight, UpperLeft, UpperRight, Middle]
      else if d = 5 then [LowerRight, Bottom, UpperLeft, Top, Middle]
      else if d = 6 then [LowerRight, Bottom, LowerLeft, UpperLeft, Top, Middle]
      else if d = 7 then [LowerRight, Top, UpperRight]
      else if d = 8 then [LowerRight, Bottom, LowerLeft, UpperLeft, Top, UpperRight, Middle]
      else if d = 9 then [LowerRight, UpperLeft, Top, UpperRight, Middle]
      else [])"

text \<open>A segment of the digit slot at \<open>base\<close> is the run of three LED indices that starts
  at \<open>base\<close> plus the segment's relative offset.\<close>

definition segment_leds :: "int \<Rightarrow> segment \<Rightarrow> int set" where
  "segment_leds base s = {base + segmentOffsets s ..< base + segmentOffsets s + 3}"

definition digit_leds :: "int \<Rightarrow> int \<Rightarrow> int set" where
  "digit_leds d base = (\<Union>s \<in> set (spec_segments d). segment_leds base s)"

text \<open>The LEDs of a frame, following the algorithm of section 4.3 of the specification:
  the two minute digits, the separator, and one or two hour digits.\<close>

definition spec_frame_leds :: "int \<Rightarrow> int \<Rightarrow> int set" where
  "spec_frame_leds hour minute =
     digit_leds (minute mod 10) 0 \<union> digit_leds (minute div 10) 21 \<union> {42, 43}
     \<union> (if hour > 9 then digit_leds (hour div 10) 65 \<union> digit_leds (hour mod 10) 44
        else digit_leds hour 44)"


definition dark :: strip where
  "dark = \<lparr>pixels = replicate LEDCLOCK_COUNT 0, shown = replicate LEDCLOCK_COUNT 0, level = 0\<rparr>"

text \<open>The colours a call list paints with.\<close>

fun call_colour :: "call \<Rightarrow> colour list" where
  "call_colour (StripFill c first count) = [c]"
| "call_colour _ = []"

definition colours :: "call list \<Rightarrow> colour list" where
  "colours cs = concat (map call_colour cs)"

section \<open>The C library functions the message handler uses\<close>

text \<open>
  A C string is the run of characters before the first NUL. \<^verbatim>\<open>strtol\<close> follows ISO C:
  it skips white space, reads an optional sign, for base 16 an optional \<^verbatim>\<open>0x\<close> or
  \<^verbatim>\<open>0X\<close> that a hexadecimal digit follows, and then the longest run of digits of the base.
  Its result is the value, clamped to the range of \<^verbatim>\<open>long\<close> (32 bits on the ESP32), and
  the offset of \<^verbatim>\<open>endptr\<close> from the start of the string; when no digit is read the value
  is 0 and the offset is 0. \<^verbatim>\<open>atoi\<close> is \<^verbatim>\<open>strtol\<close> in base 10.
\<close>

definition NUL :: char where
  "NUL = CHR 0x00"

definition cstr :: "string \<Rightarrow> string" where
  "cstr buf = takeWhile (\<lambda>c. c \<noteq> NUL) buf"

definition strcmp_eq :: "string \<Rightarrow> string \<Rightarrow> bool" where
  "strcmp_eq a b = (cstr a = cstr b)"

definition isspace :: "char \<Rightarrow> bool" where
  "isspace c = (of_char c = (32::nat) \<or> (9 \<le> (of_char c :: nat) \<and> (of_char c :: nat) \<le> 13))"

definition digit_value :: "char \<Rightarrow> nat option" where
  "digit_value c =
     (let n = (of_char c :: nat) in
      if 48 \<le> n \<and> n \<le> 57 then Some (n - 48)
      else if 65 \<le> n \<and> n \<le> 90 then Some (n - 55)
      else if 97 \<le> n \<and> n \<le> 122 then Some (n - 87)
      else None)"

definition is_digit_of :: "nat \<Rightarrow> char \<Rightarrow> bool" where
  "is_digit_of base c = (case digit_value c of Some v \<Rightarrow> v < base | None \<Rightarrow> False)"

definition accumulate :: "nat \<Rightarrow> nat \<Rightarrow> char \<Rightarrow> nat" where
  "accumulate base acc c = acc * base + (case digit_value c of Some v \<Rightarrow> v | None \<Rightarrow> 0)"

definition LONG_MAX :: int where
  "LONG_MAX = 2147483647"

definition LONG_MIN :: int where
  "LONG_MIN = - 2147483648"

definition has_hex_prefix :: "string \<Rightarrow> bool" where
  "has_hex_prefix s =
     (case s of
        c0 # c1 # c2 # rest \<Rightarrow>
          c0 = CHR ''0'' \<and> (c1 = CHR ''x'' \<or> c1 = CHR ''X'') \<and> is_digit_of 16 c2
      | _ \<Rightarrow> False)"

definition strtol :: "string \<Rightarrow> nat \<Rightarrow> int \<times> nat" where
  "strtol nptr base =
     (let ws = takeWhile isspace nptr;
          s1 = dropWhile isspace nptr;
          neg = (take 1 s1 = ''-'');
          sgn = (if take 1 s1 = ''-'' \<or> take 1 s1 = ''+'' then 1 else 0);
          s2 = drop sgn s1;
          pre = (if base = 16 \<and> has_hex_prefix s2 then 2 else 0);
          ds = takeWhile (is_digit_of base) (drop pre s2);
          acc = int (foldl (accumulate base) 0 ds)
      in if ds = [] then (0, 0)
         else (if neg then max LONG_MIN (- acc) else min LONG_MAX acc,
               length ws + sgn + pre + length ds))"

definition atoi :: "string \<Rightarrow> int" where
  "atoi s = fst (strtol s 10)"

section \<open>The state of the sketch and the message handler\<close>

record sketch =
  wifiConnected :: bool
  mqttColorActive :: bool
  mqttColor :: colour
  lastTimeSync :: "32 word"
  clockColour :: colour
  brightness :: int
  currentHour :: int
  currentMinute :: int
  currentSecond :: int
  stored_mqtt_color_topic :: string
  stored_mqtt_brightness_topic :: string

definition syncInterval :: "32 word" where
  "syncInterval = 900000"

text \<open>
  The colour text of a non-empty payload: \<^verbatim>\<open>colorStr\<close> is an 8-byte buffer of zeros that
  receives the first 7 bytes of the payload; \<^verbatim>\<open>hexStr\<close> skips a leading \<^verbatim>\<open>#\<close>; the
  text is accepted when \<^verbatim>\<open>*endptr == '\0' && strlen(hexStr) == 6\<close>, and the colour is
  \<^verbatim>\<open>(uint32_t)colorVal\<close>.
\<close>

definition parse_color :: "string \<Rightarrow> colour option" where
  "parse_color payload =
     (let colorStr = take 7 payload @ replicate (8 - min 7 (length payload)) NUL;
          hexStr = (if colorStr ! 0 = CHR ''#'' then drop 1 colorStr else colorStr);
          (colorVal, endptr) = strtol (cstr hexStr) 16
      in if hexStr ! endptr = NUL \<and> length (cstr hexStr) = 6
         then Some (word_of_int colorVal)
         else None)"

text \<open>The brightness text: \<^verbatim>\<open>brightnessStr\<close> is a 5-byte buffer of zeros that receives
  the first 4 bytes of the payload; the value is \<^verbatim>\<open>atoi(brightnessStr)\<close>.\<close>

definition parse_brightness :: "string \<Rightarrow> int" where
  "parse_brightness payload =
     (let brightnessStr = take 4 payload @ replicate (5 - min 4 (length payload)) NUL
      in atoi (cstr brightnessStr))"

definition color_branch :: "string \<Rightarrow> sketch \<Rightarrow> sketch" where
  "color_branch payload s =
     (case parse_color payload of
        Some v \<Rightarrow> s\<lparr>mqttColor := v, mqttColorActive := True\<rparr>
      | None \<Rightarrow> s\<lparr>mqttColorActive := False\<rparr>)"

definition brightness_branch :: "string \<Rightarrow> sketch \<Rightarrow> sketch" where
  "brightness_branch payload s =
     (if length payload > 0
      then (let val = parse_brightness payload
            in if val \<ge> 0 \<and> val \<le> 255 then s\<lparr>brightness := val\<rparr> else s)
      else s)"

text \<open>\<^verbatim>\<open>mqttCallback(topic, payload, length)\<close>: the empty payload on the colour topic
  clears the override and returns; otherwise the colour block and then the brightness block
  run, each when the topic equals its stored topic.\<close>

definition mqttCallback :: "string \<Rightarrow> string \<Rightarrow> sketch \<Rightarrow> sketch" where
  "mqttCallback topic payload s =
     (if strcmp_eq topic (stored_mqtt_color_topic s) \<and> length payload = 0
      then s\<lparr>mqttColorActive := False\<rparr>
      else
        (let s1 = (if strcmp_eq topic (stored_mqtt_color_topic s)
                   then color_branch payload s else s)
         in if strcmp_eq topic (stored_mqtt_brightness_topic s1)
            then brightness_branch payload s1 else s1))"

section \<open>The main loop of the sketch\<close>

text \<open>
  What one pass of \<^verbatim>\<open>loop()\<close> reads from its collaborators, one field for each place
  of the program that reads it:
  \<^item> \<open>wifi_lost\<close>: \<^verbatim>\<open>WiFi.status() != WL_CONNECTED\<close> at the top of the pass;
  \<^item> \<open>wifi_polls k\<close>: \<^verbatim>\<open>WiFi.status() == WL_CONNECTED\<close> at poll \<open>k\<close> of
    \<^verbatim>\<open>connectToWiFi()\<close>;
  \<^item> \<open>millis_check\<close>, \<open>millis_stamp\<close>: \<^verbatim>\<open>millis()\<close> in the resync test and in the
    assignment to \<^verbatim>\<open>lastTimeSync\<close>;
  \<^item> \<open>local_time\<close>: hour, minute and second of \<^verbatim>\<open>getLocalTime\<close>, if it succeeds;
  \<^item> \<open>wifi_up\<close>: \<^verbatim>\<open>WiFi.status() == WL_CONNECTED\<close> before the message-bus block;
  \<^item> \<open>mqtt_connected\<close>: \<^verbatim>\<open>mqttClient.connected()\<close> in \<^verbatim>\<open>loop()\<close>;
  \<^item> \<open>wifi_up_mqtt\<close>: \<^verbatim>\<open>WiFi.status() == WL_CONNECTED\<close> in \<^verbatim>\<open>connectToMQTT()\<close>;
  \<^item> \<open>mqtt_connect k\<close>: the result of attempt \<open>k\<close> of \<^verbatim>\<open>mqttClient.connect\<close>;
  \<^item> \<open>inbound\<close>: the messages (topic, payload) that \<^verbatim>\<open>mqttClient.loop()\<close> hands to
    the callback, in order.
\<close>

record cycle =
  wifi_lost :: bool
  wifi_polls :: "nat \<Rightarrow> bool"
  millis_check :: "32 word"
  millis_stamp :: "32 word"
  local_time :: "(int \<times> int \<times> int) option"
  wifi_up :: bool
  mqtt_connected :: bool
  wifi_up_mqtt :: bool
  mqtt_connect :: "nat \<Rightarrow> bool"
  inbound :: "(string \<times> string) list"

text \<open>
  \<^verbatim>\<open>connectToWiFi()\<close>: the loop
  \<^verbatim>\<open>while (WiFi.status() != WL_CONNECTED && timeout-- > 0)\<close> with \<^verbatim>\<open>timeout = 15\<close>;
  \<open>wifi_wait\<close> returns the number of the status poll that follows the loop.
\<close>

fun wifi_wait :: "(nat \<Rightarrow> bool) \<Rightarrow> nat \<Rightarrow> nat \<Rightarrow> nat" where
  "wifi_wait polls k 0 = Suc k"
| "wifi_wait polls k (Suc timeout) =
     (if polls k then Suc k else wifi_wait polls (Suc k) timeout)"

definition connectToWiFi :: "(nat \<Rightarrow> bool) \<Rightarrow> sketch \<Rightarrow> sketch \<times> bool" where
  "connectToWiFi polls s =
     (if polls (wifi_wait polls 0 15) then (s\<lparr>wifiConnected := True\<rparr>, True) else (s, False))"

text \<open>
  \<^verbatim>\<open>connectToMQTT()\<close>: when the link is up, \<^verbatim>\<open>while (!mqttClient.connected())\<close> tries
  \<^verbatim>\<open>mqttClient.connect\<close> again and again, with no bound. The session is taken to be
  connected exactly after a successful attempt. The result is the number of attempts made;
  a loop that never ends has no result.
\<close>

partial_function (option) mqtt_retry :: "(nat \<Rightarrow> bool) \<Rightarrow> nat \<Rightarrow> nat option" where
  "mqtt_retry attempt k = (if attempt k then Some (Suc k) else mqtt_retry attempt (Suc k))"

definition connectToMQTT :: "cycle \<Rightarrow> nat option" where
  "connectToMQTT e = (if wifi_up_mqtt e then mqtt_retry (mqtt_connect e) 0 else Some 0)"

text \<open>The passes of \<^verbatim>\<open>loop()\<close>, in program order: the link check, the resync test,
  the clock reading, the message-bus block, and the rendering.\<close>

definition loop_link :: "cycle \<Rightarrow> sketch \<Rightarrow> sketch" where
  "loop_link e s = (if wifi_lost e then fst (connectToWiFi (wifi_polls e) s) else s)"

definition loop_resync :: "cycle \<Rightarrow> sketch \<Rightarrow> sketch \<times> call list" where
  "loop_resync e s =
     (if millis_check e - lastTimeSync s > syncInterval
      then (s\<lparr>lastTimeSync := millis_stamp e\<rparr>, [ConfigTzTime])
      else (s, []))"

definition loop_time :: "cycle \<Rightarrow> sketch \<Rightarrow> sketch" where
  "loop_time e s =
     (case local_time e of
        None \<Rightarrow> s
      | Some (tm_hour, tm_min, tm_sec) \<Rightarrow>
          s\<lparr>currentHour := tm_hour, currentMinute := tm_min, currentSecond := tm_sec\<rparr>)"

definition dispatch :: "(string \<times> string) list \<Rightarrow> sketch \<Rightarrow> sketch" where
  "dispatch msgs s = fold (\<lambda>(topic, payload). mqttCallback topic payload) msgs s"

definition loop_bus :: "cycle \<Rightarrow> sketch \<Rightarrow> sketch option" where
  "loop_bus e s =
     (if wifi_up e
      then (if \<not> mqtt_connected e
            then (case connectToMQTT e of
                    None \<Rightarrow> None
                  | Some n \<Rightarrow> Some (dispatch (inbound e) (s\<lparr>mqttColorActive := False\<rparr>)))
            else Some (dispatch (inbound e) s))
      else Some s)"

definition displayColor :: "sketch \<Rightarrow> colour" where
  "displayColor s = (if mqttColorActive s then mqttColor s else clockColour s)"

definition loop_render :: "sketch \<Rightarrow> call list" where
  "loop_render s =
     StripSetBrightness (brightness s)
     # displayTheTime (currentHour s) (currentMinute s) (displayColor s)"

definition loop :: "cycle \<Rightarrow> sketch \<Rightarrow> (sketch \<times> call list) option" where
  "loop e s =
     (let (s2, sync) = loop_resync e (loop_link e s)
      in case loop_bus e (loop_time e s2) of
           None \<Rightarrow> None
         | Some s4 \<Rightarrow> Some (s4, sync @ loop_render s4))"

text \<open>The globals as initialised, with the two topic names of the configuration, and
  \<^verbatim>\<open>setup()\<close>.\<close>

definition initial :: "string \<Rightarrow> string \<Rightarrow> sketch" where
  "initial color_topic brightness_topic =
     \<lparr>wifiConnected = False, mqttColorActive = False, mqttColor = 0, lastTimeSync = 0,
      clockColour = 0xD0D37D, brightness = 25,
      currentHour = 0, currentMinute = 0, currentSecond = 0,
      stored_mqtt_color_topic = color_topic,
      stored_mqtt_brightness_topic = brightness_topic\<rparr>"

definition sketch_setup :: "(nat \<Rightarrow> bool) \<Rightarrow> string \<Rightarrow> string \<Rightarrow> sketch \<times> call list" where
  "sketch_setup polls color_topic brightness_topic =
     (let s = initial color_topic brightness_topic
      in (fst (connectToWiFi polls s),
          [ConfigTzTime, StripBegin, StripShow, StripSetBrightness (brightness s)]))"

text \<open>The states the sketch can be in between two passes of \<^verbatim>\<open>loop()\<close>.\<close>

inductive reachable :: "sketch \<Rightarrow> bool" where
  after_setup: "reachable (fst (sketch_setup polls color_topic brightness_topic))"
| after_loop: "reachable s \<Longrightarrow> loop e s = Some (s', calls) \<Longrightarrow> reachable s'"



text \<open>The message-bus block of a pass returns: when it has to reconnect, some attempt
  succeeds.\<close>

definition bus_returns :: "cycle \<Rightarrow> bool" where
  "bus_returns e =
     (wifi_up e \<and> \<not> mqtt_connected e \<and> wifi_up_mqtt e \<longrightarrow> (\<exists>k. mqtt_connect e k))"

section \<open>Facts about the driver\<close>

lemma length_setPixelColor [simp]: "length (setPixelColor n c px) = length px"
  by (simp add: setPixelColor_def)

lemma length_fold_setPixelColor [simp]:
  "length (fold (\<lambda>i. setPixelColor i c) is px) = length px"
  by (induction "is" arbitrary: px) simp_all

lemma length_fill [simp]: "length (fill c first count px) = length px"
  by (simp add: fill_def)

lemma nth_setPixelColor:
  "i < length px \<Longrightarrow> setPixelColor n c px ! i = (if i = n then c else px ! i)"
  by (simp add: setPixelColor_def nth_list_update)

lemma nth_fold_setPixelColor:
  "i < length px \<Longrightarrow>
   fold (\<lambda>i. setPixelColor i c) [a..<b] px ! i = (if a \<le> i \<and> i < b then c else px ! i)"
proof (induction b)
  case 0
  then show ?case by simp
next
  case (Suc b)
  show ?case
  proof (cases "a \<le> b")
    case True
    with Suc show ?thesis
      by (auto simp: nth_setPixelColor)
  next
    case False
    then show ?thesis by auto
  qed
qed

lemma length_pixels_exec [simp]: "length (pixels (exec k st)) = length (pixels st)"
  by (cases k) simp_all

lemma length_pixels_run [simp]: "length (pixels (run cs st)) = length (pixels st)"
  unfolding run_def by (induction cs arbitrary: st) simp_all

lemma run_Nil [simp]: "run [] st = st"
  by (simp add: run_def)

lemma run_Cons [simp]: "run (k # cs) st = run cs (exec k st)"
  by (simp add: run_def)

lemma run_append [simp]: "run (cs @ ds) st = run ds (run cs st)"
  by (simp add: run_def)

lemma fill_indices_in_range:
  "first + count \<le> numLEDs \<Longrightarrow> 0 < count \<Longrightarrow> numLEDs < 65536 \<Longrightarrow>
   fill_indices numLEDs first count = [first ..< first + count]"
  by (simp add: fill_indices_def fill_end_def)


lemma nth_fill_uint16:
  assumes "0 \<le> first" "0 < count" "first + count \<le> int (length px)"
    and "length px < 65536" "i < length px"
  shows "fill c (uint16 first) (uint16 count) px ! i =
         (if first \<le> int i \<and> int i < first + count then c else px ! i)"
proof -
  have f: "uint16 first = nat first" and k: "uint16 count = nat count"
    using assms by (simp_all add: uint16_def)
  have "fill_indices (length px) (nat first) (nat count) = [nat first ..< nat first + nat count]"
    using assms by (intro fill_indices_in_range) auto
  with assms show ?thesis
    by (auto simp: f k fill_def nth_fold_setPixelColor)
qed

lemma nth_run_digitZero:
  assumes "length (pixels st) = 86" "0 \<le> off" "off \<le> 65" "i < 86"
  shows "pixels (run (digitZero off c) st) ! i =
         (if int i \<in> digit_leds 0 off then c else pixels st ! i)"
  using assms
  by (simp add: digitZero_def nth_fill_uint16 digit_leds_def spec_segments_def segment_leds_def)

lemma nth_run_digitOne:
  assumes "length (pixels st) = 86" "0 \<le> off" "off \<le> 65" "i < 86"
  shows "pixels (run (digitOne off c) st) ! i =
         (if int i \<in> digit_leds 1 off then c else pixels st ! i)"
  using assms
  by (simp add: digitOne_def nth_fill_uint16 digit_leds_def spec_segments_def segment_leds_def)

lemma nth_run_digitTwo:
  assumes "length (pixels st) = 86" "0 \<le> off" "off \<le> 65" "i < 86"
  shows "pixels (run (digitTwo off c) st) ! i =
         (if int i \<in> digit_leds 2 off then c else pixels st ! i)"
  using assms
  by (simp add: digitTwo_def nth_fill_uint16 digit_leds_def spec_segments_def segment_leds_def)

lemma nth_run_digitThree:
  assumes "length (pixels st) = 86" "0 \<le> off" "off \<le> 65" "i < 86"
  shows "pixels (run (digitThree off c) st) ! i =
         (if int i \<in> digit_leds 3 off then c else pixels st ! i)"
  using assms
  by (simp add: digitThree_def nth_fill_uint16 digit_leds_def spec_segments_def segment_leds_def)

lemma nth_run_digitFour:
  assumes "length (pixels st) = 86" "0 \<le> off" "off \<le> 65" "i < 86"
  shows "pixels (run (digitFour off c) st) ! i =
         (if int i \<in> digit_leds 4 off then c else pixels st ! i)"
  using assms
  by (simp add: digitFour_def nth_fill_uint16 digit_leds_def spec_segments_def segment_leds_def)

lemma nth_run_digitFive:
  assumes "length (pixels st) = 86" "0 \<le> off" "off \<le> 65" "i < 86"
  shows "pixels (run (digitFive off c) st) ! i =
         (if int i \<in> digit_leds 5 off then c else pixels st ! i)"
  using assms
  by (simp add: digitFive_def nth_fill_uint16 digit_leds_def spec_segments_def segment_leds_def)

lemma nth_run_digitSix:
  assumes "length (pixels st) = 86" "0 \<le> off" "off \<le> 65" "i < 86"
  shows "pixels (run (digitSix off c) st) ! i =
         (if int i \<in> digit_leds 6 off then c else pixels st ! i)"
  using assms
  by (simp add: digitSix_def nth_fill_uint16 digit_leds_def spec_segments_def segment_leds_def)

lemma nth_run_digitSeven:
  assumes "length (pixels st) = 86" "0 \<le> off" "off \<le> 65" "i < 86"
  shows "pixels (run (digitSeven off c) st) ! i =
         (if int i \<in> digit_leds 7 off then c else pixels st ! i)"
  using assms
  by (simp add: digitSeven_def nth_fill_uint16 digit_leds_def spec_segments_def segment_leds_def)

lemma nth_run_digitEight:
  assumes "length (pixels st) = 86" "0 \<le> off" "off \<le> 65" "i < 86"
  shows "pixels (run (digitEight off c) st) ! i =
         (if int i \<in> digit_leds 8 off then c else pixels st ! i)"
  using assms
  by (simp add: digitEight_def nth_fill_uint16 digit_leds_def spec_segments_def segment_leds_def)

lemma nth_run_digitNine:
  assumes "length (pixels st) = 86" "0 \<le> off" "off \<le> 65" "i < 86"
  shows "pixels (run (digitNine off c) st) ! i =
         (if int i \<in> digit_leds 9 off then c else pixels st ! i)"
  using assms
  by (simp add: digitNine_def nth_fill_uint16 digit_leds_def spec_segments_def segment_leds_def)

lemma digit_cases:
  assumes "0 \<le> d" "d \<le> 9"
  obtains "d = 0" | "d = 1" | "d = 2" | "d = 3" | "d = 4"
    | "d = 5" | "d = 6" | "d = 7" | "d = 8" | "d = (9::int)"
proof -
  have "d = 0 \<or> d = 1 \<or> d = 2 \<or> d = 3 \<or> d = 4 \<or> d = 5 \<or> d = 6 \<or> d = 7 \<or> d = 8 \<or> d = 9"
    using assms by arith
  then show thesis
    using that by blast
qed

lemma nth_run_displayNumber:
  assumes "0 \<le> d" "d \<le> 9" "0 \<le> off" "off \<le> 65"
    and "length (pixels st) = 86" "i < 86"
  shows "pixels (run (displayNumber d off c) st) ! i =
         (if int i \<in> digit_leds d off then c else pixels st ! i)"
  using assms(1,2)
proof (cases d rule: digit_cases)
  case 1 then show ?thesis using assms by (simp add: displayNumber_def nth_run_digitZero)
next
  case 2 then show ?thesis using assms by (simp add: displayNumber_def nth_run_digitOne)
next
  case 3 then show ?thesis using assms by (simp add: displayNumber_def nth_run_digitTwo)
next
  case 4 then show ?thesis using assms by (simp add: displayNumber_def nth_run_digitThree)
next
  case 5 then show ?thesis using assms by (simp add: displayNumber_def nth_run_digitFour)
next
  case 6 then show ?thesis using assms by (simp add: displayNumber_def nth_run_digitFive)
next
  case 7 then show ?thesis using assms by (simp add: displayNumber_def nth_run_digitSix)
next
  case 8 then show ?thesis using assms by (simp add: displayNumber_def nth_run_digitSeven)
next
  case 9 then show ?thesis using assms by (simp add: displayNumber_def nth_run_digitEight)
next
  case 10 then show ?thesis using assms by (simp add: displayNumber_def nth_run_digitNine)
qed

lemma digit_leds_slot: "digit_leds d off \<subseteq> {off ..< off + 21}"
  by (auto simp: digit_leds_def spec_segments_def segment_leds_def split: if_splits)







lemma sdiv_nonneg: "0 \<le> a \<Longrightarrow> 0 < b \<Longrightarrow> a sdiv b = a div (b::int)"
  by (simp add: signed_divide_int_def sgn_if)

lemma smod_nonneg: "0 \<le> a \<Longrightarrow> 0 < b \<Longrightarrow> a smod b = a mod (b::int)"
  by (simp add: smod_mod_positive)

lemma displayTheTime_in_range:
  assumes "0 \<le> hour" "0 \<le> minute"
  shows "displayTheTime hour minute c =
     [StripClear]
     @ displayNumber (minute mod 10) 0 c
     @ displayNumber (minute div 10) 21 c
     @ [StripFill c 42 1, StripFill c 43 1]
     @ (if hour > 9
        then displayNumber (hour div 10) 65 c @ displayNumber (hour mod 10) 44 c
        else displayNumber hour 44 c)
     @ [StripShow]"
  using assms by (simp add: displayTheTime_def sdiv_nonneg smod_nonneg)

lemma pixels_exec_show [simp]: "pixels (exec StripShow st) = pixels st"
  by simp

lemma nth_separators:
  assumes "length (pixels st) = 86" "i < 86"
  shows "pixels (run [StripFill c 42 1, StripFill c 43 1] st) ! i =
         (if i = 42 \<or> i = 43 then c else pixels st ! i)"
  using assms by (auto simp: nth_fill_uint16)

lemma nth_frame:
  assumes "0 \<le> hour" "hour \<le> 23" "0 \<le> minute" "minute \<le> 59"
    and "length (pixels st) = 86" "i < 86"
  shows "pixels (run (displayTheTime hour minute c) st) ! i =
         (if int i \<in> spec_frame_leds hour minute then c else 0)"
proof -
  define st0 where "st0 = exec StripClear st"
  define st1 where "st1 = run (displayNumber (minute mod 10) 0 c) st0"
  define st2 where "st2 = run (displayNumber (minute div 10) 21 c) st1"
  define st3 where "st3 = run [StripFill c 42 1, StripFill c 43 1] st2"
  define hs where "hs = (if hour > 9
        then displayNumber (hour div 10) 65 c @ displayNumber (hour mod 10) 44 c
        else displayNumber hour 44 c)"
  define st4 where "st4 = run hs st3"
  have len: "length (pixels st0) = 86" "length (pixels st1) = 86" "length (pixels st2) = 86"
    "length (pixels st3) = 86"
    using assms(5) by (simp_all add: st0_def st1_def st2_def st3_def)
  have p0: "pixels st0 ! i = 0"
    using assms(5,6) by (simp add: st0_def)
  have m: "0 \<le> minute mod 10" "minute mod 10 \<le> 9" "0 \<le> minute div 10" "minute div 10 \<le> 9"
    using assms(3,4) by simp_all
  have p1: "pixels st1 ! i = (if int i \<in> digit_leds (minute mod 10) 0 then c else 0)"
    unfolding st1_def using m len assms(6) p0 by (simp add: nth_run_displayNumber)
  have p2: "pixels st2 ! i = (if int i \<in> digit_leds (minute div 10) 21 then c else pixels st1 ! i)"
    unfolding st2_def using m len assms(6) by (simp add: nth_run_displayNumber)
  have p3: "pixels st3 ! i = (if i = 42 \<or> i = 43 then c else pixels st2 ! i)"
    unfolding st3_def using len(3) assms(6) by (rule nth_separators)
  have p4: "pixels st4 ! i =
      (if int i \<in> (if hour > 9 then digit_leds (hour div 10) 65 \<union> digit_leds (hour mod 10) 44
                    else digit_leds hour 44)
       then c else pixels st3 ! i)"
  proof (cases "hour > 9")
    case True
    then have h: "0 \<le> hour div 10" "hour div 10 \<le> 9" "0 \<le> hour mod 10" "hour mod 10 \<le> 9"
      using assms(1,2) by simp_all
    show ?thesis
      unfolding st4_def hs_def using True h len assms(6)
      by (simp add: nth_run_displayNumber)
  next
    case False
    then show ?thesis
      unfolding st4_def hs_def using assms(1) len assms(6)
      by (simp add: nth_run_displayNumber)
  qed
  have "run (displayTheTime hour minute c) st = exec StripShow st4"
    using assms(1,3)
    by (simp add: displayTheTime_in_range st4_def hs_def st3_def st2_def st1_def st0_def
        del: exec.simps)
  then have "pixels (run (displayTheTime hour minute c) st) ! i = pixels st4 ! i"
    by simp
  also have "\<dots> = (if int i \<in> spec_frame_leds hour minute then c else 0)"
    unfolding p4 p3 p2 p1 by (auto simp: spec_frame_leds_def)
  finally show ?thesis .
qed

lemma requests_simps [simp]:
  "requests [] = {}"
  "requests (k # cs) = call_request k \<union> requests cs"
  "requests (cs @ ds) = requests cs \<union> requests ds"
  by (auto simp: requests_def)

lemma writes_simps [simp]:
  "writes n [] = []"
  "writes n (k # cs) = call_writes n k @ writes n cs"
  "writes n (cs @ ds) = writes n cs @ writes n ds"
  by (simp_all add: writes_def)

lemma call_writes_on_strip:
  assumes "on_strip n k" "n < 65536"
  shows "int ` set (call_writes n k) = call_request k"
proof (cases k)
  case (StripFill c first count)
  with assms have a: "0 \<le> first" "0 < count" "first + count \<le> int n"
    by simp_all
  then have "fill_indices n (nat first) (nat count) = [nat first ..< nat first + nat count]"
    using assms(2) by (intro fill_indices_in_range) auto
  moreover have "uint16 first = nat first" "uint16 count = nat count"
    using a assms(2) by (simp_all add: uint16_def)
  moreover have "int ` {nat first ..< nat first + nat count} = {first ..< first + count}"
  proof (rule set_eqI)
    fix x
    show "x \<in> int ` {nat first ..< nat first + nat count} \<longleftrightarrow> x \<in> {first ..< first + count}"
    proof
      assume "x \<in> int ` {nat first ..< nat first + nat count}"
      with a show "x \<in> {first ..< first + count}" by auto
    next
      assume x: "x \<in> {first ..< first + count}"
      with a have "nat x \<in> {nat first ..< nat first + nat count}" "x = int (nat x)"
        by auto
      then show "x \<in> int ` {nat first ..< nat first + nat count}"
        by (rule_tac image_eqI)
    qed
  qed
  ultimately show ?thesis
    using StripFill by simp
qed (simp_all)

lemma writes_on_strip:
  assumes "\<forall>k \<in> set cs. on_strip n k" "n < 65536"
  shows "int ` set (writes n cs) = requests cs"
  using assms by (induction cs) (simp_all add: image_Un call_writes_on_strip)

lemma on_strip_request:
  "on_strip n k \<Longrightarrow> call_request k \<subseteq> {0 ..< int n}"
  by (cases k) auto

lemma on_strip_displayNumber:
  assumes "0 \<le> base" "base + 21 \<le> int n"
  shows "\<forall>k \<in> set (displayNumber d base c). on_strip n k"
  using assms
  by (auto simp: displayNumber_def digitZero_def digitOne_def digitTwo_def digitThree_def
        digitFour_def digitFive_def digitSix_def digitSeven_def digitEight_def digitNine_def)

lemma on_strip_displayTheTime:
  "\<forall>k \<in> set (displayTheTime hour minute c). on_strip 86 k"
  using on_strip_displayNumber [of 0 86] on_strip_displayNumber [of 21 86]
    on_strip_displayNumber [of 44 86] on_strip_displayNumber [of 65 86]
  by (auto simp: displayTheTime_def)

lemma requests_displayNumber_slot:
  "requests (displayNumber d base c) \<subseteq> {base ..< base + 21}"
  by (auto simp: displayNumber_def digitZero_def digitOne_def digitTwo_def digitThree_def
        digitFour_def digitFive_def digitSix_def digitSeven_def digitEight_def digitNine_def)


lemma shown_displayTheTime:
  "shown (run (displayTheTime hour minute c) st) = pixels (run (displayTheTime hour minute c) st)"
  by (simp add: displayTheTime_def del: exec.simps) simp


lemma pixels_exec_cong:
  "pixels a = pixels b \<Longrightarrow> pixels (exec k a) = pixels (exec k b)"
  by (cases k) simp_all


lemma pixels_run_cong:
  "pixels a = pixels b \<Longrightarrow> pixels (run cs a) = pixels (run cs b)"
proof (induction cs arbitrary: a b)
  case Nil
  then show ?case by simp
next
  case (Cons k cs)
  from Cons.prems have "pixels (exec k a) = pixels (exec k b)"
    by (rule pixels_exec_cong)
  then have "pixels (run cs (exec k a)) = pixels (run cs (exec k b))"
    by (rule Cons.IH)
  then show ?case
    by (simp del: exec.simps)
qed


lemma pixels_displayTheTime_cong:
  assumes "length (pixels a) = length (pixels b)"
  shows "pixels (run (displayTheTime hour minute c) a) = pixels (run (displayTheTime hour minute c) b)"
proof -
  obtain rest where r: "displayTheTime hour minute c = StripClear # rest"
    by (simp add: displayTheTime_def)
  have "pixels (exec StripClear a) = pixels (exec StripClear b)"
    using assms by simp
  then show ?thesis
    unfolding r run_Cons by (rule pixels_run_cong)
qed


section \<open>Facts about the message handler and the main loop\<close>

lemma mqtt_retry_returns:
  "attempt (k + n) \<Longrightarrow> \<exists>r. mqtt_retry attempt k = Some r"
proof (induction n arbitrary: k)
  case 0
  then show ?case
    by (subst mqtt_retry.simps) simp
next
  case (Suc n)
  show ?case
  proof (cases "attempt k")
    case True
    then show ?thesis
      by (subst mqtt_retry.simps) simp
  next
    case False
    from Suc.prems have "attempt (Suc k + n)" by simp
    then obtain r where "mqtt_retry attempt (Suc k) = Some r"
      using Suc.IH by blast
    with False show ?thesis
      by (subst mqtt_retry.simps) simp
  qed
qed

lemma connectToMQTT_returns:
  assumes "wifi_up_mqtt e \<longrightarrow> (\<exists>k. mqtt_connect e k)"
  shows "\<exists>n. connectToMQTT e = Some n"
proof (cases "wifi_up_mqtt e")
  case True
  with assms obtain k where "mqtt_connect e (0 + k)" by auto
  then show ?thesis
    using True mqtt_retry_returns [of "mqtt_connect e" 0 k] by (simp add: connectToMQTT_def)
next
  case False
  then show ?thesis by (simp add: connectToMQTT_def)
qed

lemma mqttCallback_frame:
  "lastTimeSync (mqttCallback t p s) = lastTimeSync s"
  "clockColour (mqttCallback t p s) = clockColour s"
  "currentHour (mqttCallback t p s) = currentHour s"
  "currentMinute (mqttCallback t p s) = currentMinute s"
  "wifiConnected (mqttCallback t p s) = wifiConnected s"
  "stored_mqtt_color_topic (mqttCallback t p s) = stored_mqtt_color_topic s"
  "stored_mqtt_brightness_topic (mqttCallback t p s) = stored_mqtt_brightness_topic s"
  by (simp_all add: mqttCallback_def color_branch_def brightness_branch_def Let_def
      split: option.split)

lemma dispatch_frame:
  "lastTimeSync (dispatch msgs s) = lastTimeSync s
   \<and> clockColour (dispatch msgs s) = clockColour s
   \<and> currentHour (dispatch msgs s) = currentHour s
   \<and> currentMinute (dispatch msgs s) = currentMinute s
   \<and> wifiConnected (dispatch msgs s) = wifiConnected s
   \<and> stored_mqtt_color_topic (dispatch msgs s) = stored_mqtt_color_topic s
   \<and> stored_mqtt_brightness_topic (dispatch msgs s) = stored_mqtt_brightness_topic s"
  unfolding dispatch_def
  by (induction msgs arbitrary: s) (simp_all add: mqttCallback_frame split: prod.split)

lemma mqttCallback_brightness:
  assumes "0 \<le> brightness s \<and> brightness s \<le> 255"
  shows "0 \<le> brightness (mqttCallback t p s) \<and> brightness (mqttCallback t p s) \<le> 255"
  using assms
  by (simp add: mqttCallback_def color_branch_def brightness_branch_def Let_def
      split: option.split)

lemma dispatch_brightness:
  assumes "0 \<le> brightness s \<and> brightness s \<le> 255"
  shows "0 \<le> brightness (dispatch msgs s) \<and> brightness (dispatch msgs s) \<le> 255"
  using assms unfolding dispatch_def
proof (induction msgs arbitrary: s)
  case Nil
  then show ?case by simp
next
  case (Cons m msgs)
  obtain t p where m: "m = (t, p)" by (cases m)
  from Cons.prems have "0 \<le> brightness (mqttCallback t p s) \<and> brightness (mqttCallback t p s) \<le> 255"
    by (rule mqttCallback_brightness)
  then show ?case
    using Cons.IH [of "mqttCallback t p s"] by (simp add: m)
qed



lemma connectToWiFi_frame:
  "brightness (fst (connectToWiFi polls s)) = brightness s"
  "lastTimeSync (fst (connectToWiFi polls s)) = lastTimeSync s"
  "mqttColorActive (fst (connectToWiFi polls s)) = mqttColorActive s"
  "clockColour (fst (connectToWiFi polls s)) = clockColour s"
  "stored_mqtt_color_topic (fst (connectToWiFi polls s)) = stored_mqtt_color_topic s"
  by (simp_all add: connectToWiFi_def)

lemma loop_link_frame:
  "brightness (loop_link e s) = brightness s"
  "lastTimeSync (loop_link e s) = lastTimeSync s"
  "mqttColorActive (loop_link e s) = mqttColorActive s"
  "clockColour (loop_link e s) = clockColour s"
  "stored_mqtt_color_topic (loop_link e s) = stored_mqtt_color_topic s"
  by (simp_all add: loop_link_def connectToWiFi_frame)

lemma loop_resync_frame:
  "brightness (fst (loop_resync e s)) = brightness s"
  "mqttColorActive (fst (loop_resync e s)) = mqttColorActive s"
  "clockColour (fst (loop_resync e s)) = clockColour s"
  "stored_mqtt_color_topic (fst (loop_resync e s)) = stored_mqtt_color_topic s"
  by (simp_all add: loop_resync_def)

lemma loop_time_frame:
  "brightness (loop_time e s) = brightness s"
  "lastTimeSync (loop_time e s) = lastTimeSync s"
  "mqttColorActive (loop_time e s) = mqttColorActive s"
  "clockColour (loop_time e s) = clockColour s"
  "stored_mqtt_color_topic (loop_time e s) = stored_mqtt_color_topic s"
  by (simp_all add: loop_time_def split: option.split prod.split)

lemma loop_bus_frame:
  assumes "loop_bus e s = Some s'"
  shows "lastTimeSync s' = lastTimeSync s" "clockColour s' = clockColour s"
    "stored_mqtt_color_topic s' = stored_mqtt_color_topic s"
  using assms
  by (auto simp: loop_bus_def dispatch_frame split: if_splits option.splits)

lemma loop_bus_brightness:
  assumes "loop_bus e s = Some s'" "0 \<le> brightness s \<and> brightness s \<le> 255"
  shows "0 \<le> brightness s' \<and> brightness s' \<le> 255"
proof -
  have "0 \<le> brightness (dispatch (inbound e) (s\<lparr>mqttColorActive := False\<rparr>))
      \<and> brightness (dispatch (inbound e) (s\<lparr>mqttColorActive := False\<rparr>)) \<le> 255"
    using assms(2) by (intro dispatch_brightness) simp
  moreover have "0 \<le> brightness (dispatch (inbound e) s) \<and> brightness (dispatch (inbound e) s) \<le> 255"
    using assms(2) by (rule dispatch_brightness)
  ultimately show ?thesis
    using assms by (auto simp: loop_bus_def split: if_splits option.splits)
qed

lemma loop_Some:
  assumes "loop e s = Some (s', calls)"
  shows "loop_bus e (loop_time e (fst (loop_resync e (loop_link e s)))) = Some s'
       \<and> calls = snd (loop_resync e (loop_link e s)) @ loop_render s'"
  using assms by (auto simp: loop_def split: prod.splits option.splits)

lemma loop_returns:
  assumes "loop_bus e (loop_time e (fst (loop_resync e (loop_link e s)))) = Some s'"
  shows "loop e s = Some (s', snd (loop_resync e (loop_link e s)) @ loop_render s')"
  using assms by (auto simp: loop_def split: prod.splits option.splits)

lemma loop_bus_returns:
  assumes "bus_returns e"
  shows "\<exists>s'. loop_bus e s = Some s'"
proof (cases "wifi_up e \<and> \<not> mqtt_connected e")
  case True
  with assms have "wifi_up_mqtt e \<longrightarrow> (\<exists>k. mqtt_connect e k)"
    by (simp add: bus_returns_def)
  then obtain n where "connectToMQTT e = Some n"
    using connectToMQTT_returns by blast
  with True show ?thesis
    by (simp add: loop_bus_def)
next
  case False
  then show ?thesis
    by (auto simp: loop_bus_def)
qed

lemma no_brightness_call_in_displayNumber:
  "StripSetBrightness b \<notin> set (displayNumber d base c)"
  by (simp add: displayNumber_def digitZero_def digitOne_def digitTwo_def digitThree_def
        digitFour_def digitFive_def digitSix_def digitSeven_def digitEight_def digitNine_def)

lemma no_brightness_call_in_displayTheTime:
  "StripSetBrightness b \<notin> set (displayTheTime hour minute c)"
  by (simp add: displayTheTime_def no_brightness_call_in_displayNumber)

lemma loop_brightness:
  assumes "loop e s = Some (s', calls)" "0 \<le> brightness s \<and> brightness s \<le> 255"
  shows "0 \<le> brightness s' \<and> brightness s' \<le> 255"
    and "StripSetBrightness b \<in> set calls \<Longrightarrow> b = brightness s'"
proof -
  note l = loop_Some [OF assms(1)]
  from l have bus: "loop_bus e (loop_time e (fst (loop_resync e (loop_link e s)))) = Some s'"
    by simp
  have "0 \<le> brightness (loop_time e (fst (loop_resync e (loop_link e s))))
      \<and> brightness (loop_time e (fst (loop_resync e (loop_link e s)))) \<le> 255"
    using assms(2) by (simp add: loop_time_frame loop_resync_frame loop_link_frame)
  with bus show "0 \<le> brightness s' \<and> brightness s' \<le> 255"
    by (rule loop_bus_brightness)
  assume "StripSetBrightness b \<in> set calls"
  with l show "b = brightness s'"
    by (auto simp: loop_resync_def loop_render_def no_brightness_call_in_displayTheTime
        split: if_splits)
qed

lemma reachable_brightness:
  "reachable s \<Longrightarrow> 0 \<le> brightness s \<and> brightness s \<le> 255"
proof (induction rule: reachable.induct)
  case (after_setup polls color_topic brightness_topic)
  show ?case
    by (simp add: sketch_setup_def connectToWiFi_frame initial_def)
next
  case (after_loop s e s' calls)
  then show ?case
    using loop_brightness(1) by blast
qed

lemma elapsed_word:
  fixes t0 t1 :: nat
  assumes "t0 \<le> t1" "t1 - t0 < 2 ^ 32"
  shows "unat ((of_nat t1 :: 32 word) - of_nat t0) = t1 - t0"
proof -
  have "(of_nat t1 :: 32 word) - of_nat t0 = of_nat (t1 - t0)"
    using assms(1) by simp
  then show ?thesis
    using assms(2) by (simp add: unat_of_nat)
qed

lemma loop_resync_due:
  fixes t0 t1 :: nat
  assumes "lastTimeSync s = of_nat t0" "millis_check e = of_nat t1"
    and "t0 \<le> t1" "t1 - t0 < 2 ^ 32" "900000 < t1 - t0"
  shows "loop_resync e s = (s\<lparr>lastTimeSync := millis_stamp e\<rparr>, [ConfigTzTime])"
proof -
  have "unat (millis_check e - lastTimeSync s) = t1 - t0"
    using assms by (simp add: elapsed_word)
  then have "millis_check e - lastTimeSync s > syncInterval"
    using assms(5) by (simp add: word_less_nat_alt syncInterval_def)
  then show ?thesis
    by (simp add: loop_resync_def)
qed

lemma loop_resync_not_due:
  fixes t0 t1 :: nat
  assumes "lastTimeSync s = of_nat t0" "millis_check e = of_nat t1"
    and "t0 \<le> t1" "t1 - t0 \<le> 900000"
  shows "loop_resync e s = (s, [])"
proof -
  have "unat (millis_check e - lastTimeSync s) = t1 - t0"
    using assms by (simp add: elapsed_word)
  then have "\<not> millis_check e - lastTimeSync s > syncInterval"
    using assms(4) by (simp add: word_less_nat_alt syncInterval_def)
  then show ?thesis
    by (simp add: loop_resync_def)
qed

lemma colours_simps [simp]:
  "colours [] = []"
  "colours (k # cs) = call_colour k @ colours cs"
  "colours (cs @ ds) = colours cs @ colours ds"
  by (simp_all add: colours_def)










section \<open>Facts about the parsing of message texts\<close>

lemmas parse_defs = parse_color_def parse_brightness_def atoi_def strtol_def cstr_def NUL_def
  isspace_def has_hex_prefix_def is_digit_of_def digit_value_def accumulate_def
  LONG_MIN_def LONG_MAX_def

lemma parse_color_signed: "parse_color ''-12345'' = Some 0xFFFEDCBB"
  by (simp add: parse_defs)

lemma parse_color_prefixed: "parse_color ''0x1234'' = Some 0x1234"
  by (simp add: parse_defs)

lemma parse_color_long: "parse_color ''#FF00FFzz'' = Some 0xFF00FF"
  by (simp add: parse_defs)

lemma parse_color_hash: "parse_color ''#FF00FF'' = Some 0xFF00FF"
  by (simp add: parse_defs)

lemma parse_color_space: "parse_color '' 12345'' = Some 0x12345"
  by (simp add: parse_defs)

lemma parse_brightness_text: "parse_brightness ''abc'' = 0"
  by (simp add: parse_defs)

lemma parse_brightness_long: "parse_brightness ''00999'' = 99"
  by (simp add: parse_defs)

lemma parse_brightness_200: "parse_brightness ''200'' = 200"
  by (simp add: parse_defs)

lemma parse_brightness_256: "parse_brightness ''256'' = 256"
  by (simp add: parse_defs)


lemma strcmp_eq_refl [simp]: "strcmp_eq t t"
  by (simp add: strcmp_eq_def)

lemma digit_not_special:
  assumes "is_digit_of base c" "base \<le> 16"
  shows "\<not> isspace c" "c \<noteq> NUL" "c \<noteq> CHR ''-''" "c \<noteq> CHR ''+''" "c \<noteq> CHR ''#''"
    "c \<noteq> CHR ''x''" "c \<noteq> CHR ''X''"
  using assms
  by (auto simp: is_digit_of_def digit_value_def isspace_def NUL_def Let_def split: if_splits)

lemma foldl_accumulate_bound:
  assumes "\<forall>c \<in> set ds. is_digit_of base c"
  shows "foldl (accumulate base) n ds < (n + 1) * base ^ length ds"
  using assms
proof (induction ds arbitrary: n)
  case Nil
  then show ?case by simp
next
  case (Cons c ds)
  then obtain v where v: "digit_value c = Some v" "v < base"
    by (auto simp: is_digit_of_def split: option.splits)
  have "foldl (accumulate base) (accumulate base n c) ds
      < (accumulate base n c + 1) * base ^ length ds"
    using Cons.prems by (intro Cons.IH) simp
  moreover have "(accumulate base n c + 1) * base ^ length ds
      \<le> ((n + 1) * base) * base ^ length ds"
    using v by (intro mult_le_mono1) (simp add: accumulate_def)
  ultimately have "foldl (accumulate base) (accumulate base n c) ds
      < ((n + 1) * base) * base ^ length ds"
    by (rule less_le_trans)
  then show ?case
    by (simp add: algebra_simps)
qed

lemma strtol_digits:
  assumes "ds \<noteq> []" "\<forall>c \<in> set ds. is_digit_of base c" "base = 10 \<or> base = 16"
  shows "strtol ds base = (min LONG_MAX (int (foldl (accumulate base) 0 ds)), length ds)"
proof -
  obtain c cs where ds: "ds = c # cs"
    using assms(1) by (cases ds) auto
  have b: "base \<le> 16"
    using assms(3) by auto
  have c: "\<not> isspace c" "c \<noteq> CHR ''-''" "c \<noteq> CHR ''+''"
    using digit_not_special [of base c] assms(2) b by (simp_all add: ds)
  have ws: "takeWhile isspace ds = []" "dropWhile isspace ds = ds"
    using c by (simp_all add: ds)
  have pre: "\<not> has_hex_prefix ds"
  proof
    assume "has_hex_prefix ds"
    then obtain c1 where "c1 \<in> set ds" "c1 = CHR ''x'' \<or> c1 = CHR ''X''"
      by (auto simp: has_hex_prefix_def split: list.splits)
    then show False
      using digit_not_special(6,7) [of base c1] assms(2) b by auto
  qed
  have all: "takeWhile (is_digit_of base) ds = ds"
    using assms(2) by (simp add: takeWhile_eq_all_conv)
  have sign: "take (Suc 0) ds = [c]"
    by (simp add: ds)
  show ?thesis
    by (simp add: strtol_def Let_def ws sign c pre all assms(1))
qed


lemma cstr_terminated:
  assumes "NUL \<notin> set h"
  shows "cstr (h @ NUL # rest) = h"
proof -
  have "takeWhile (\<lambda>c. c \<noteq> NUL) h = h"
    using assms by (auto simp: takeWhile_eq_all_conv)
  moreover have "takeWhile (\<lambda>c. c \<noteq> NUL) (h @ NUL # rest) = h @ takeWhile (\<lambda>c. c \<noteq> NUL) (NUL # rest)"
    using assms by (intro takeWhile_append2) auto
  ultimately show ?thesis
    by (simp add: cstr_def)
qed

lemma hex_no_NUL:
  assumes "\<forall>c \<in> set h. is_digit_of 16 c"
  shows "NUL \<notin> set h"
  using assms digit_not_special(2) [of 16] by auto

lemma hex6_value:
  assumes "length h = 6" "\<forall>c \<in> set h. is_digit_of 16 c"
  shows "foldl (accumulate 16) 0 h < 2 ^ 24"
    and "strtol h 16 = (int (foldl (accumulate 16) 0 h), 6)"
proof -
  have "foldl (accumulate 16) 0 h < (0 + 1) * 16 ^ length h"
    using assms(2) by (rule foldl_accumulate_bound)
  then show b: "foldl (accumulate 16) 0 h < 2 ^ 24"
    by (simp add: assms(1))
  have "h \<noteq> []"
    using assms(1) by auto
  then have "strtol h 16 = (min LONG_MAX (int (foldl (accumulate 16) 0 h)), length h)"
    using assms(2) by (intro strtol_digits) simp_all
  with b show "strtol h 16 = (int (foldl (accumulate 16) 0 h), 6)"
    by (simp add: assms(1) LONG_MAX_def)
qed

lemma parse_color_hex6:
  assumes "length h = 6" "\<forall>c \<in> set h. is_digit_of 16 c"
  shows "parse_color h = Some (word_of_int (int (foldl (accumulate 16) 0 h)))"
proof -
  have n: "NUL \<notin> set h"
    using assms(2) by (rule hex_no_NUL)
  have buf: "take 7 h @ replicate (8 - min 7 (length h)) NUL = h @ NUL # [NUL]"
    using assms(1) by (simp add: numeral_eq_Suc)
  have "h ! 0 \<in> set h"
    using assms(1) by (intro nth_mem) simp
  then have first: "(h @ NUL # [NUL]) ! 0 \<noteq> CHR ''#''"
    using assms digit_not_special(5) [of 16 "h ! 0"] by (simp add: nth_append)
  have str: "cstr (h @ NUL # [NUL]) = h"
    using n by (rule cstr_terminated)
  have stop: "(h @ NUL # [NUL]) ! 6 = NUL"
    using assms(1) by (simp add: nth_append)
  show ?thesis
    unfolding parse_color_def buf Let_def
    using first by (simp add: str hex6_value(2) [OF assms] stop assms(1))
qed

lemma parse_color_hash_hex6:
  assumes "length h = 6" "\<forall>c \<in> set h. is_digit_of 16 c"
  shows "parse_color (CHR ''#'' # h @ rest) = Some (word_of_int (int (foldl (accumulate 16) 0 h)))"
proof -
  have n: "NUL \<notin> set h"
    using assms(2) by (rule hex_no_NUL)
  have buf: "take 7 (CHR ''#'' # h @ rest)
      @ replicate (8 - min 7 (length (CHR ''#'' # h @ rest))) NUL = CHR ''#'' # h @ NUL # []"
    using assms(1) by (simp add: numeral_eq_Suc)
  have str: "cstr (h @ NUL # []) = h"
    using n by (rule cstr_terminated)
  have stop: "(h @ NUL # []) ! 6 = NUL"
    using assms(1) by (simp add: nth_append)
  show ?thesis
    unfolding parse_color_def buf Let_def
    by (simp add: str hex6_value(2) [OF assms] stop assms(1))
qed

lemma color_handler_accepts_hex6:
  assumes "length h = 6" "\<forall>c \<in> set h. is_digit_of 16 c"
    and "payload = h \<or> payload = CHR ''#'' # h @ rest"
  shows "mqttColorActive (mqttCallback (stored_mqtt_color_topic s) payload s)
       \<and> mqttColor (mqttCallback (stored_mqtt_color_topic s) payload s) =
           word_of_int (int (foldl (accumulate 16) 0 h))
       \<and> foldl (accumulate 16) 0 h < 2 ^ 24"
proof -
  have p: "parse_color payload = Some (word_of_int (int (foldl (accumulate 16) 0 h)))"
    using assms parse_color_hex6 parse_color_hash_hex6 by blast
  have ne: "payload \<noteq> []"
    using assms(1,3) by auto
  show ?thesis
    using ne hex6_value(1) [OF assms(1,2)]
    by (simp add: p mqttCallback_def color_branch_def brightness_branch_def Let_def)
qed

lemma color_handler_empty:
  "\<not> mqttColorActive (mqttCallback (stored_mqtt_color_topic s) [] s)"
  by (simp add: mqttCallback_def)

lemma color_handler_rejected:
  assumes "parse_color payload = None"
  shows "\<not> mqttColorActive (mqttCallback (stored_mqtt_color_topic s) payload s)"
  using assms
  by (simp add: mqttCallback_def color_branch_def brightness_branch_def Let_def)

lemma digits_no_NUL:
  assumes "\<forall>c \<in> set p. is_digit_of 10 c"
  shows "NUL \<notin> set p"
  using assms digit_not_special(2) [of 10] by auto

lemma parse_brightness_digits:
  assumes "p \<noteq> []" "length p \<le> 4" "\<forall>c \<in> set p. is_digit_of 10 c"
  shows "parse_brightness p = int (foldl (accumulate 10) 0 p)"
proof -
  have n: "NUL \<notin> set p"
    using assms(3) by (rule digits_no_NUL)
  obtain k where buf: "take 4 p @ replicate (5 - min 4 (length p)) NUL = p @ NUL # replicate k NUL"
    using assms(2) by (cases "5 - min 4 (length p)") auto
  have str: "cstr (p @ NUL # replicate k NUL) = p"
    using n by (rule cstr_terminated)
  have "foldl (accumulate 10) 0 p < (0 + 1) * 10 ^ length p"
    using assms(3) by (rule foldl_accumulate_bound)
  also have "\<dots> \<le> 10 ^ 4"
    using power_increasing [OF assms(2), of "10::nat"] by simp
  finally have b: "int (foldl (accumulate 10) 0 p) \<le> LONG_MAX"
    by (simp add: LONG_MAX_def)
  have "strtol p 10 = (min LONG_MAX (int (foldl (accumulate 10) 0 p)), length p)"
    using assms(1,3) by (intro strtol_digits) simp_all
  with b show ?thesis
    unfolding parse_brightness_def buf Let_def by (simp add: str atoi_def)
qed

lemma brightness_handler_digits:
  assumes "p \<noteq> []" "length p \<le> 4" "\<forall>c \<in> set p. is_digit_of 10 c"
  shows "brightness (mqttCallback (stored_mqtt_brightness_topic s) p s) =
         (if int (foldl (accumulate 10) 0 p) \<le> 255 then int (foldl (accumulate 10) 0 p)
          else brightness s)"
  using assms(1)
  by (simp add: parse_brightness_digits [OF assms] mqttCallback_def color_branch_def
      brightness_branch_def Let_def split: option.split)


section \<open>The digit renderer\<close>

text \<open>
  C5. For every digit value outside 0..9 and every base offset, \<^verbatim>\<open>displayNumber\<close> takes
  the \<^verbatim>\<open>default\<close> branch of its switch: it makes no call at all, so it lights nothing,
  leaves the strip as it was, and writes no pixel, inside or outside the strip.
\<close>

theorem displayNumber_outside_digits_no_op:
  assumes "d < 0 \<or> 9 < d"
  shows "displayNumber d base c = [] \<and> run (displayNumber d base c) st = st
         \<and> writes n (displayNumber d base c) = []"
  using assms by (auto simp: displayNumber_def writes_def)

theorem displayNumber_outside_digits_no_op_witness:
  "displayNumber 12 44 0xD0D37D = [] \<and> run (displayNumber 12 44 0xD0D37D) dark = dark
   \<and> writes 86 (displayNumber 12 44 0xD0D37D) = []"
  using displayNumber_outside_digits_no_op [of 12 44 "0xD0D37D" dark 86] by (simp add: writes_def)





section \<open>The clock compositor\<close>

text \<open>
  C4. For every hour in 0..23 and minute in 0..59, \<^verbatim>\<open>displayTheTime\<close> clears the
  buffer, renders \<open>minute mod 10\<close> at offset 0 and \<open>minute div 10\<close> at offset 21, fills the
  two separator LEDs 42 and 43 with the colour, renders \<open>hour div 10\<close> at offset 65 and
  \<open>hour mod 10\<close> at offset 44 when \<open>hour > 9\<close> and the hour alone at offset 44 otherwise, and
  shows the buffer. On the strip of 86 LEDs the frame has the colour exactly at the LEDs that
  the digit table and the layout of the specification give and is dark elsewhere; when
  \<open>hour \<le> 9\<close> every LED of the tens slot 65..85 is dark.
\<close>

theorem displayTheTime_composes_frame:
  assumes "0 \<le> hour" "hour \<le> 23" "0 \<le> minute" "minute \<le> 59"
    and "length (pixels st) = LEDCLOCK_COUNT"
  shows "displayTheTime hour minute c =
           [StripClear]
           @ displayNumber (minute mod 10) 0 c
           @ displayNumber (minute div 10) 21 c
           @ [StripFill c 42 1, StripFill c 43 1]
           @ (if hour > 9
              then displayNumber (hour div 10) 65 c @ displayNumber (hour mod 10) 44 c
              else displayNumber hour 44 c)
           @ [StripShow]
       \<and> pixels (run (displayTheTime hour minute c) st) =
           map (\<lambda>i. if int i \<in> spec_frame_leds hour minute then c else 0) [0 ..< LEDCLOCK_COUNT]
       \<and> shown (run (displayTheTime hour minute c) st) =
           pixels (run (displayTheTime hour minute c) st)
       \<and> (hour \<le> 9 \<longrightarrow>
            (\<forall>i. 65 \<le> i \<and> i < LEDCLOCK_COUNT \<longrightarrow>
               pixels (run (displayTheTime hour minute c) st) ! i = 0))"
proof (intro conjI impI allI)
  show "displayTheTime hour minute c =
           [StripClear]
           @ displayNumber (minute mod 10) 0 c
           @ displayNumber (minute div 10) 21 c
           @ [StripFill c 42 1, StripFill c 43 1]
           @ (if hour > 9
              then displayNumber (hour div 10) 65 c @ displayNumber (hour mod 10) 44 c
              else displayNumber hour 44 c)
           @ [StripShow]"
    using assms(1,3) by (rule displayTheTime_in_range)
next
  show "pixels (run (displayTheTime hour minute c) st) =
      map (\<lambda>i. if int i \<in> spec_frame_leds hour minute then c else 0) [0 ..< LEDCLOCK_COUNT]"
    using assms by (intro nth_equalityI) (simp_all add: LEDCLOCK_COUNT_def nth_frame)
next
  show "shown (run (displayTheTime hour minute c) st) =
      pixels (run (displayTheTime hour minute c) st)"
    by (rule shown_displayTheTime)
next
  fix i
  assume h: "hour \<le> 9" and i: "65 \<le> i \<and> i < LEDCLOCK_COUNT"
  have "int i \<notin> spec_frame_leds hour minute"
    using h i digit_leds_slot [of "minute mod 10" 0] digit_leds_slot [of "minute div 10" 21]
      digit_leds_slot [of hour 44]
    by (auto simp: spec_frame_leds_def)
  with assms i show "pixels (run (displayTheTime hour minute c) st) ! i = 0"
    by (simp add: LEDCLOCK_COUNT_def nth_frame)
qed


text \<open>The theorem at 9:05 on a dark strip: the frame is the one of the specification, and
  the first and the last LED of the hours-tens slot are dark.\<close>

theorem displayTheTime_composes_frame_witness:
  "pixels (run (displayTheTime 9 5 0xD0D37D) dark) =
     map (\<lambda>i. if int i \<in> spec_frame_leds 9 5 then 0xD0D37D else 0) [0 ..< LEDCLOCK_COUNT]
   \<and> shown (run (displayTheTime 9 5 0xD0D37D) dark) = pixels (run (displayTheTime 9 5 0xD0D37D) dark)
   \<and> pixels (run (displayTheTime 9 5 0xD0D37D) dark) ! 65 = 0
   \<and> pixels (run (displayTheTime 9 5 0xD0D37D) dark) ! 85 = 0"
proof -
  have t: "displayTheTime 9 5 0xD0D37D =
           [StripClear]
           @ displayNumber (5 mod 10) 0 0xD0D37D
           @ displayNumber (5 div 10) 21 0xD0D37D
           @ [StripFill 0xD0D37D 42 1, StripFill 0xD0D37D 43 1]
           @ (if (9::int) > 9
              then displayNumber (9 div 10) 65 0xD0D37D @ displayNumber (9 mod 10) 44 0xD0D37D
              else displayNumber 9 44 0xD0D37D)
           @ [StripShow]
       \<and> pixels (run (displayTheTime 9 5 0xD0D37D) dark) =
           map (\<lambda>i. if int i \<in> spec_frame_leds 9 5 then 0xD0D37D else 0) [0 ..< LEDCLOCK_COUNT]
       \<and> shown (run (displayTheTime 9 5 0xD0D37D) dark) =
           pixels (run (displayTheTime 9 5 0xD0D37D) dark)
       \<and> ((9::int) \<le> 9 \<longrightarrow>
            (\<forall>i. 65 \<le> i \<and> i < LEDCLOCK_COUNT \<longrightarrow>
               pixels (run (displayTheTime 9 5 0xD0D37D) dark) ! i = 0))"
    by (rule displayTheTime_composes_frame) (simp_all add: dark_def)
  then have z: "\<forall>i. 65 \<le> i \<and> i < LEDCLOCK_COUNT \<longrightarrow>
               pixels (run (displayTheTime 9 5 0xD0D37D) dark) ! i = 0"
    by blast
  have "pixels (run (displayTheTime 9 5 0xD0D37D) dark) ! 65 = 0"
    "pixels (run (displayTheTime 9 5 0xD0D37D) dark) ! 85 = 0"
    using z by (simp_all add: LEDCLOCK_COUNT_def)
  with t show ?thesis
    by blast
qed


text \<open>
  C7. Composing the frame for the same hour, minute and colour on two strips of 86 LEDs,
  whatever they held before, gives the same buffer and the same shown frame; in particular
  composing it a second time right after the first changes nothing.
\<close>

theorem displayTheTime_deterministic:
  assumes "length (pixels st) = LEDCLOCK_COUNT" "length (pixels st') = LEDCLOCK_COUNT"
  shows "pixels (run (displayTheTime hour minute c) st) =
           pixels (run (displayTheTime hour minute c) st')
       \<and> shown (run (displayTheTime hour minute c) st) =
           shown (run (displayTheTime hour minute c) st')
       \<and> pixels (run (displayTheTime hour minute c) (run (displayTheTime hour minute c) st)) =
           pixels (run (displayTheTime hour minute c) st)
       \<and> shown (run (displayTheTime hour minute c) (run (displayTheTime hour minute c) st)) =
           shown (run (displayTheTime hour minute c) st)"
proof -
  have a: "pixels (run (displayTheTime hour minute c) st) =
           pixels (run (displayTheTime hour minute c) st')"
    using assms by (intro pixels_displayTheTime_cong) simp
  have b: "pixels (run (displayTheTime hour minute c) (run (displayTheTime hour minute c) st)) =
           pixels (run (displayTheTime hour minute c) st)"
    by (intro pixels_displayTheTime_cong) simp
  show ?thesis
    using a b by (simp add: shown_displayTheTime)
qed


text \<open>The theorem for 23:59 on a dark strip and on a strip that is red all over.\<close>

theorem displayTheTime_deterministic_witness:
  "pixels (run (displayTheTime 23 59 0xD0D37D) dark) =
     pixels (run (displayTheTime 23 59 0xD0D37D)
              \<lparr>pixels = replicate LEDCLOCK_COUNT 0xFF0000, shown = [], level = 25\<rparr>)
   \<and> pixels (run (displayTheTime 23 59 0xD0D37D) (run (displayTheTime 23 59 0xD0D37D) dark)) =
     pixels (run (displayTheTime 23 59 0xD0D37D) dark)"
proof -
  have "length (pixels dark) = LEDCLOCK_COUNT"
    "length (pixels \<lparr>pixels = replicate LEDCLOCK_COUNT 0xFF0000, shown = [], level = 25\<rparr>) = LEDCLOCK_COUNT"
    by (simp_all add: dark_def)
  from displayTheTime_deterministic [OF this, of 23 59 "0xD0D37D"] show ?thesis
    by blast
qed



text \<open>
  C9. For every hour in 0..23 and minute in 0..59, every \<^verbatim>\<open>fill\<close> of a frame asks for a
  non-empty range inside 0..85, so the driver writes exactly the LEDs asked for and none above
  85; LED 85 is written at 23:59. What a frame asks for lies in the four digit slots and the
  separator; a digit rendered at a base offset stays within the 21 LEDs from that offset; the
  slots at 0, 21, 44 and 65 are pairwise disjoint and none contains LED 42 or 43.
\<close>

theorem displayTheTime_writes_on_strip:
  assumes "0 \<le> hour" "hour \<le> 23" "0 \<le> minute" "minute \<le> 59"
  shows "(\<forall>k \<in> set (displayTheTime hour minute c).
            on_strip LEDCLOCK_COUNT k \<and> call_request k \<subseteq> {0 ..< int LEDCLOCK_COUNT})
       \<and> int ` set (writes LEDCLOCK_COUNT (displayTheTime hour minute c)) =
            requests (displayTheTime hour minute c)
       \<and> (\<forall>i \<in> set (writes LEDCLOCK_COUNT (displayTheTime hour minute c)). i \<le> 85)
       \<and> 85 \<in> set (writes LEDCLOCK_COUNT (displayTheTime 23 59 c))
       \<and> requests (displayTheTime hour minute c) \<subseteq>
            requests (displayNumber (minute mod 10) 0 c)
            \<union> requests (displayNumber (minute div 10) 21 c)
            \<union> {42, 43}
            \<union> requests (displayNumber (hour div 10) 65 c)
            \<union> requests (displayNumber (hour mod 10) 44 c)
       \<and> (\<forall>d base. requests (displayNumber d base c) \<subseteq> {base ..< base + 21})
       \<and> (\<forall>base \<in> {0, 21, 44, 65}. \<forall>base' \<in> {0, 21, 44, 65}. base \<noteq> base' \<longrightarrow>
            (\<forall>d d'. requests (displayNumber d base c) \<inter> requests (displayNumber d' base' c) = {}))
       \<and> (\<forall>base \<in> {0, 21, 44, 65}. \<forall>d. requests (displayNumber d base c) \<inter> {42, 43} = {})"
proof -
  have on: "\<forall>k \<in> set (displayTheTime hour minute c). on_strip LEDCLOCK_COUNT k"
    unfolding LEDCLOCK_COUNT_def by (rule on_strip_displayTheTime)
  have w: "int ` set (writes LEDCLOCK_COUNT (displayTheTime hour minute c)) =
            requests (displayTheTime hour minute c)"
    using on by (intro writes_on_strip) (simp_all add: LEDCLOCK_COUNT_def)
  have r: "requests (displayTheTime hour minute c) \<subseteq> {0 ..< int LEDCLOCK_COUNT}"
    using on on_strip_request unfolding requests_def by blast
  have hi: "\<forall>i \<in> set (writes LEDCLOCK_COUNT (displayTheTime hour minute c)). i \<le> 85"
  proof
    fix i assume "i \<in> set (writes LEDCLOCK_COUNT (displayTheTime hour minute c))"
    then have "int i \<in> requests (displayTheTime hour minute c)"
      using w by blast
    with r show "i \<le> 85"
      by (auto simp: LEDCLOCK_COUNT_def)
  qed
  have top: "85 \<in> set (writes LEDCLOCK_COUNT (displayTheTime 23 59 c))"
    by (simp add: displayTheTime_def displayNumber_def digitTwo_def LEDCLOCK_COUNT_def
        fill_indices_def fill_end_def uint16_def)
  have parts: "requests (displayTheTime hour minute c) \<subseteq>
            requests (displayNumber (minute mod 10) 0 c)
            \<union> requests (displayNumber (minute div 10) 21 c)
            \<union> {42, 43}
            \<union> requests (displayNumber (hour div 10) 65 c)
            \<union> requests (displayNumber (hour mod 10) 44 c)"
    using assms by (auto simp: displayTheTime_in_range)
  have slot: "requests (displayNumber d base c) \<subseteq> {base ..< base + 21}" for d base
    by (rule requests_displayNumber_slot)
  have apart: "requests (displayNumber d base c) \<inter> requests (displayNumber d' base' c) = {}"
    if far: "base + 21 \<le> base' \<or> base' + 21 \<le> base" for d d' base base'
  proof (rule ccontr)
    assume "requests (displayNumber d base c) \<inter> requests (displayNumber d' base' c) \<noteq> {}"
    then obtain x where x: "x \<in> requests (displayNumber d base c)"
        "x \<in> requests (displayNumber d' base' c)"
      by blast
    from x(1) slot [of d base] have "base \<le> x \<and> x < base + 21" by auto
    moreover from x(2) slot [of d' base'] have "base' \<le> x \<and> x < base' + 21" by auto
    ultimately show False using far by arith
  qed
  have pairs: "\<forall>base \<in> {0, 21, 44, 65}. \<forall>base' \<in> {0, 21, 44, 65}. base \<noteq> base' \<longrightarrow>
            (\<forall>d d'. requests (displayNumber d base c) \<inter> requests (displayNumber d' base' c) = {})"
    by (auto intro!: apart)
  have dots: "\<forall>base \<in> {0, 21, 44, 65}. \<forall>d. requests (displayNumber d base c) \<inter> {42, 43} = {}"
  proof (intro ballI allI)
    fix base :: int and d
    assume "base \<in> {0, 21, 44, 65}"
    with slot [of d base] show "requests (displayNumber d base c) \<inter> {42, 43} = {}"
      by auto
  qed
  have first: "\<forall>k \<in> set (displayTheTime hour minute c).
            on_strip LEDCLOCK_COUNT k \<and> call_request k \<subseteq> {0 ..< int LEDCLOCK_COUNT}"
    using on on_strip_request by blast
  show ?thesis
    by (intro conjI first w hi top parts allI slot pairs dots)
qed

text \<open>The theorem at 23:59.\<close>

theorem displayTheTime_writes_on_strip_witness:
  "int ` set (writes LEDCLOCK_COUNT (displayTheTime 23 59 0xD0D37D)) =
     requests (displayTheTime 23 59 0xD0D37D)
   \<and> 85 \<in> set (writes LEDCLOCK_COUNT (displayTheTime 23 59 0xD0D37D))
   \<and> requests (displayNumber 2 65 0xD0D37D) \<inter> requests (displayNumber 3 44 0xD0D37D) = {}"
proof -
  have "(0::int) \<le> 23" "(23::int) \<le> 23" "(0::int) \<le> 59" "(59::int) \<le> 59"
    by simp_all
  note t = displayTheTime_writes_on_strip [OF this, of "0xD0D37D"]
  note a = t [THEN conjunct2, THEN conjunct1]
  note b = t [THEN conjunct2, THEN conjunct2, THEN conjunct2, THEN conjunct1]
  note p = t [THEN conjunct2, THEN conjunct2, THEN conjunct2, THEN conjunct2, THEN conjunct2,
      THEN conjunct2, THEN conjunct1]
  from p have "requests (displayNumber 2 65 0xD0D37D) \<inter> requests (displayNumber 3 44 0xD0D37D) = {}"
    by simp
  with a b show ?thesis
    by (intro conjI)
qed


section \<open>The main loop\<close>

text \<open>
  C10. In every state the sketch reaches between two passes of \<^verbatim>\<open>loop()\<close> the brightness
  lies in 0..255: it starts at 25, \<^verbatim>\<open>setup()\<close> passes 25 to \<^verbatim>\<open>setBrightness\<close>, the
  message handler is the only code that assigns it and does so after the range check, and every
  \<^verbatim>\<open>setBrightness\<close> call of a pass gets the brightness of the state the pass ends in.
\<close>

theorem brightness_always_in_range:
  assumes "reachable s"
  shows "0 \<le> brightness s \<and> brightness s \<le> 255
       \<and> brightness (initial color_topic brightness_topic) = 25
       \<and> (\<forall>b. StripSetBrightness b \<in> set (snd (sketch_setup polls color_topic brightness_topic))
              \<longrightarrow> b = 25)
       \<and> (\<forall>e s' calls b. loop e s = Some (s', calls) \<and> StripSetBrightness b \<in> set calls
              \<longrightarrow> 0 \<le> b \<and> b \<le> 255 \<and> b = brightness s')"
proof -
  have r: "0 \<le> brightness s \<and> brightness s \<le> 255"
    using assms by (rule reachable_brightness)
  have i: "brightness (initial color_topic brightness_topic) = 25"
    by (simp add: initial_def)
  have u: "\<forall>b. StripSetBrightness b \<in> set (snd (sketch_setup polls color_topic brightness_topic))
              \<longrightarrow> b = 25"
    by (simp add: sketch_setup_def initial_def)
  have l: "\<forall>e s' calls b. loop e s = Some (s', calls) \<and> StripSetBrightness b \<in> set calls
              \<longrightarrow> 0 \<le> b \<and> b \<le> 255 \<and> b = brightness s'"
    using loop_brightness [OF _ r] by blast
  show ?thesis
    by (intro conjI r [THEN conjunct1] r [THEN conjunct2] i u l)
qed

text \<open>The theorem at the state \<^verbatim>\<open>setup()\<close> leaves when the link comes up at once.\<close>

theorem brightness_always_in_range_witness:
  "0 \<le> brightness (fst (sketch_setup (\<lambda>k. True) ''led-clock/color-hex'' ''led-clock/brightness''))
   \<and> brightness (fst (sketch_setup (\<lambda>k. True) ''led-clock/color-hex'' ''led-clock/brightness'')) \<le> 255"
proof -
  have "reachable (fst (sketch_setup (\<lambda>k. True) ''led-clock/color-hex'' ''led-clock/brightness''))"
    by (rule reachable.after_setup)
  from brightness_always_in_range [OF this] show ?thesis
    by blast
qed

text \<open>
  C8. When more than 900000 ms have gone by since the last sync stamp, measured on the 32-bit
  millisecond counter (\<open>t0\<close> the time of the stamp, \<open>t1\<close> the time of the test, less than
  \<open>2^32\<close> ms apart), the resync test of the pass calls \<^verbatim>\<open>configTzTime\<close> and stores the
  new stamp, whatever the link and the message bus do; the pass returns whenever its
  message-bus block does, and then its calls hold the resync and its state the new stamp.
\<close>

theorem resync_when_interval_elapsed:
  fixes t0 t1 :: nat
  assumes "lastTimeSync s = of_nat t0" "millis_check e = of_nat t1"
    and "t0 \<le> t1" "t1 - t0 < 2 ^ 32" "900000 < t1 - t0"
  shows "loop_resync e (loop_link e s) =
           ((loop_link e s)\<lparr>lastTimeSync := millis_stamp e\<rparr>, [ConfigTzTime])
       \<and> (bus_returns e \<longrightarrow> (\<exists>s' calls. loop e s = Some (s', calls)))
       \<and> (\<forall>s' calls. loop e s = Some (s', calls) \<longrightarrow>
             ConfigTzTime \<in> set calls \<and> lastTimeSync s' = millis_stamp e)"
proof -
  have due: "loop_resync e (loop_link e s) =
           ((loop_link e s)\<lparr>lastTimeSync := millis_stamp e\<rparr>, [ConfigTzTime])"
    using assms by (intro loop_resync_due) (simp_all add: loop_link_frame)
  have ret: "bus_returns e \<longrightarrow> (\<exists>s' calls. loop e s = Some (s', calls))"
    using loop_bus_returns loop_returns by blast
  have eff: "ConfigTzTime \<in> set calls \<and> lastTimeSync s' = millis_stamp e"
    if "loop e s = Some (s', calls)" for s' calls
  proof -
    note l = loop_Some [OF that]
    from l have "lastTimeSync s' =
        lastTimeSync (loop_time e (fst (loop_resync e (loop_link e s))))"
      using loop_bus_frame(1) by blast
    moreover from l have "ConfigTzTime \<in> set calls"
      by (simp add: due)
    ultimately show ?thesis
      by (simp add: loop_time_frame due)
  qed
  show ?thesis
    using due ret eff by blast
qed

text \<open>The theorem across the wrap-around of the counter: the stamp was taken 1000 ms
  before the counter wrapped and the test runs 899001 ms after, with the link down.\<close>

theorem resync_when_interval_elapsed_witness:
  "loop_resync
     \<lparr>wifi_lost = True, wifi_polls = (\<lambda>k. False), millis_check = 899001, millis_stamp = 899002,
      local_time = None, wifi_up = False, mqtt_connected = False, wifi_up_mqtt = False,
      mqtt_connect = (\<lambda>k. False), inbound = []\<rparr>
     (loop_link
       \<lparr>wifi_lost = True, wifi_polls = (\<lambda>k. False), millis_check = 899001, millis_stamp = 899002,
        local_time = None, wifi_up = False, mqtt_connected = False, wifi_up_mqtt = False,
        mqtt_connect = (\<lambda>k. False), inbound = []\<rparr>
       ((initial ''led-clock/color-hex'' ''led-clock/brightness'')\<lparr>lastTimeSync := 4294966296\<rparr>))
   = ((loop_link
       \<lparr>wifi_lost = True, wifi_polls = (\<lambda>k. False), millis_check = 899001, millis_stamp = 899002,
        local_time = None, wifi_up = False, mqtt_connected = False, wifi_up_mqtt = False,
        mqtt_connect = (\<lambda>k. False), inbound = []\<rparr>
       ((initial ''led-clock/color-hex'' ''led-clock/brightness'')\<lparr>lastTimeSync := 4294966296\<rparr>))
      \<lparr>lastTimeSync := 899002\<rparr>, [ConfigTzTime])"
proof -
  have a: "lastTimeSync ((initial ''led-clock/color-hex'' ''led-clock/brightness'')\<lparr>lastTimeSync := 4294966296\<rparr>)
      = of_nat 4294966296"
    by simp
  have b: "millis_check \<lparr>wifi_lost = True, wifi_polls = (\<lambda>k. False), millis_check = 899001, millis_stamp = 899002,
      local_time = None, wifi_up = False, mqtt_connected = False, wifi_up_mqtt = False,
      mqtt_connect = (\<lambda>k. False), inbound = []\<rparr> = of_nat 4295866297"
    by simp
  have c: "(4294966296::nat) \<le> 4295866297" "(4295866297::nat) - 4294966296 < 2 ^ 32"
    "900000 < (4295866297::nat) - 4294966296"
    by simp_all
  from resync_when_interval_elapsed [OF a b c] show ?thesis
    by simp
qed






section \<open>The message handler\<close>

text \<open>
  C1. The claim: the colour handler accepts exactly the payloads made of an optional
  \<^verbatim>\<open>#\<close> and 6 hexadecimal characters, and rejects every other non-empty payload, leaving
  the override off. The handler does accept those payloads with their value
  (\<open>color_handler_accepts_hex6\<close>) and the empty payload switches the override off
  (\<open>color_handler_empty\<close>), but \<^verbatim>\<open>strtol\<close> also reads a sign, leading white space and a
  \<^verbatim>\<open>0x\<close> prefix: the payload \<^verbatim>\<open>-12345\<close> is read to its end and has length 6, so the
  handler switches the override on with \<^verbatim>\<open>(uint32_t)(-0x12345)\<close>, which is
  \<^verbatim>\<open>0xFFFEDCBB\<close> and no 24-bit colour.
\<close>

theorem color_handler_accepts_signed_text:
  "parse_color ''-12345'' = Some 0xFFFEDCBB
   \<and> mqttColorActive (mqttCallback (stored_mqtt_color_topic s) ''-12345'' s)
   \<and> mqttColor (mqttCallback (stored_mqtt_color_topic s) ''-12345'' s) = 0xFFFEDCBB"
  by (simp add: parse_color_signed mqttCallback_def color_branch_def brightness_branch_def Let_def)

text \<open>
  C2. The claim: a brightness payload that is not a number leaves the brightness as it was.
  A payload of up to 4 digits sets the brightness when its value is at most 255 and leaves it
  otherwise (\<open>brightness_handler_digits\<close>), but \<^verbatim>\<open>atoi\<close> gives 0 for a text without
  digits and 0 passes the range check: the payload \<^verbatim>\<open>abc\<close> sets the brightness, 25 after
  start-up, to 0.
\<close>

theorem brightness_handler_reads_text_as_zero:
  "parse_brightness ''abc'' = 0
   \<and> brightness (initial color_topic brightness_topic) = 25
   \<and> brightness (mqttCallback brightness_topic ''abc'' (initial color_topic brightness_topic)) = 0"
  by (simp add: parse_brightness_text mqttCallback_def color_branch_def brightness_branch_def
      Let_def initial_def split: option.split)

end
